theory Spec2Isabelle
  imports Complex_Main "HOL-Library.Signed_Division"
begin

section \<open>Measurement conversion: decimal inches to tape-measure fractions\<close>

text \<open>
  The development embeds the two exported functions of the measurement utilities,
  \<open>decimalToFraction\<close> and \<open>formatFraction\<close>. JavaScript numbers are modelled by exact
  arithmetic: a measurement is a \<open>real\<close>, and the quantities the code keeps integral
  (the floor, the candidate numerators and denominators) are \<open>int\<close>. Rounding errors of
  IEEE doubles are outside the model; on dyadic inputs such as \<open>5.375\<close> the source computes
  exactly and the model agrees with it digit for digit.
\<close>

subsection \<open>Data model\<close>

record FractionResult =
  whole :: int
  numerator :: int
  denominator :: int
  decimal :: real
  error :: real

text \<open>The three mutable locals of the search loop: \<open>bestNumerator\<close>, \<open>bestDenominator\<close>
  and \<open>minError\<close>.\<close>

record search_state =
  bestNumerator :: int
  bestDenominator :: int
  minError :: real

subsection \<open>Primitives of the host language\<close>

text \<open>\<open>Math.round\<close> rounds to the nearest integer, a tie going towards plus infinity.\<close>

definition Math_round :: "real \<Rightarrow> int" where
  "Math_round x = \<lfloor>x + 1 / 2\<rfloor>"

text \<open>The local helper \<open>gcd\<close> of the source, \<open>b === 0 ? a : gcd(b, a % b)\<close>. The remainder
  operator of JavaScript truncates towards zero, which is \<open>smod\<close>.\<close>

function gcd_js :: "int \<Rightarrow> int \<Rightarrow> int" where
  "gcd_js a b = (if b = 0 then a else gcd_js b (a smod b))"
  by pat_completeness auto
termination
proof (relation "measure (\<lambda>(a, b). nat \<bar>b\<bar>)")
  show "wf (measure (\<lambda>(a, b). nat \<bar>b\<bar>))" by simp
next
  fix a b :: int
  assume "b \<noteq> 0"
  then have "\<bar>a smod b\<bar> < \<bar>b\<bar>"
    using smod_int_range [where a = a and b = b] by auto
  then show "((b, a smod b), (a, b)) \<in> measure (\<lambda>(a, b). nat \<bar>b\<bar>)"
    by simp
qed

declare gcd_js.simps [simp del]

text \<open>Decimal rendering of an integral number, as a template literal prints it.\<close>

definition digit_char :: "nat \<Rightarrow> char" where
  "digit_char n = ''0123456789'' ! n"

fun show_nat :: "nat \<Rightarrow> string" where
  "show_nat n = (if n < 10 then [digit_char n] else show_nat (n div 10) @ [digit_char (n mod 10)])"

declare show_nat.simps [simp del]

definition show_int :: "int \<Rightarrow> string" where
  "show_int i = (if i < 0 then ''-'' @ show_nat (nat (- i)) else show_nat (nat i))"

text \<open>The inch mark is the double-quote character.\<close>

definition inch_mark :: string where
  "inch_mark = [CHR 0x22]"

subsection \<open>The search for the nearest fraction\<close>

text \<open>One pass through the body of the \<open>for\<close> loop at candidate denominator \<open>d\<close>. The
  \<open>else if\<close> branch of the source holds comments only and leaves the state alone.\<close>

definition loop_body :: "real \<Rightarrow> int \<Rightarrow> search_state \<Rightarrow> search_state" where
  "loop_body decimalPart d s =
     (let n = Math_round (decimalPart * of_int d);
          err = \<bar>decimalPart - of_int n / of_int d\<bar>
      in if err < minError s - 0.00001
         then \<lparr>bestNumerator = n, bestDenominator = d, minError = err\<rparr>
         else s)"

text \<open>The loop \<open>for (let d = 2; d <= maxDenominator; d *= 2)\<close>, entered at the current
  \<open>d\<close>. The source enters it at \<open>d = 2\<close> only, so \<open>d\<close> is positive throughout; the
  guard \<open>0 < d\<close> records that and makes the function total on every argument.\<close>

function search_loop :: "real \<Rightarrow> int \<Rightarrow> int \<Rightarrow> search_state \<Rightarrow> search_state" where
  "search_loop decimalPart maxDenominator d s =
     (if 0 < d \<and> d \<le> maxDenominator
      then search_loop decimalPart maxDenominator (d * 2) (loop_body decimalPart d s)
      else s)"
  by pat_completeness auto
termination
  by (relation "measure (\<lambda>(f, m, d, s). nat (m + 1 - d))") auto

declare search_loop.simps [simp del]

text \<open>The state before the loop: the seed \<open>1/1\<close>.\<close>

definition seed :: "real \<Rightarrow> search_state" where
  "seed decimalPart =
     \<lparr>bestNumerator = 1, bestDenominator = 1, minError = \<bar>decimalPart - 1 / 1\<bar>\<rparr>"

text \<open>The two quotients \<open>bestNumerator / commonDivisor\<close> and
  \<open>bestDenominator / commonDivisor\<close> of the source are exact, the divisor dividing both
  (lemma \<open>gcd_js_eq_gcd\<close> below), so they are integer quotients here. The source gives
  \<open>maxDenominator\<close> the default \<open>16\<close>; here the argument is always passed.\<close>

definition decimalToFraction :: "real \<Rightarrow> int \<Rightarrow> FractionResult" where
  "decimalToFraction val maxDenominator =
     (let whole = \<lfloor>val\<rfloor>;
          decimalPart = val - of_int whole
      in if \<bar>decimalPart\<bar> < 0.0001
         then \<lparr>whole = whole, numerator = 0, denominator = 1, decimal = val, error = 0\<rparr>
         else
           let s = search_loop decimalPart maxDenominator 2 (seed decimalPart);
               commonDivisor = gcd_js (bestNumerator s) (bestDenominator s)
           in \<lparr>whole = whole,
               numerator = bestNumerator s div commonDivisor,
               denominator = bestDenominator s div commonDivisor,
               decimal = val,
               error = minError s\<rparr>)"

definition formatFraction :: "FractionResult \<Rightarrow> string" where
  "formatFraction result =
     (if numerator result = 0 \<or> numerator result = denominator result
      then show_int (if numerator result = denominator result
                     then whole result + 1 else whole result) @ inch_mark
      else if whole result = 0
      then show_int (numerator result) @ ''/'' @ show_int (denominator result) @ inch_mark
      else show_int (whole result) @ '' '' @ show_int (numerator result) @ ''/''
             @ show_int (denominator result) @ inch_mark)"

section \<open>Auxiliary facts\<close>

subsection \<open>The helper \<open>gcd\<close> and rounding\<close>

lemma gcd_js_eq_gcd: "0 \<le> a \<Longrightarrow> 0 \<le> b \<Longrightarrow> gcd_js a b = gcd a b"
proof (induction a b rule: gcd_js.induct)
  case (1 a b)
  show ?case
  proof (cases "b = 0")
    case True
    with 1 show ?thesis by (simp add: gcd_js.simps)
  next
    case False
    with 1 have b: "0 < b" by simp
    have sm: "a smod b = a mod b"
      using 1(2) b by (simp add: signed_modulo_int_def sgn_if)
    have "gcd_js a b = gcd_js b (a smod b)"
      using False by (subst gcd_js.simps) simp
    also have "\<dots> = gcd b (a smod b)"
      using 1 False b sm by simp
    also have "\<dots> = gcd a b"
      by (simp add: sm gcd.commute gcd_red_int [symmetric])
    finally show ?thesis .
  qed
qed

lemma round_error_bound:
  fixes f :: real and d :: int
  assumes "0 < d"
  shows "\<bar>f - of_int (Math_round (f * of_int d)) / of_int d\<bar> \<le> 1 / (2 * of_int d)"
proof -
  define n where "n = Math_round (f * of_int d)"
  define D :: real where "D = of_int d"
  have D: "0 < D" using assms by (simp add: D_def)
  have "\<bar>f * D - of_int n\<bar> \<le> 1 / 2"
    unfolding n_def Math_round_def D_def by linarith
  then have le: "\<bar>f * D - of_int n\<bar> / D \<le> (1 / 2) / D"
    using D by (intro divide_right_mono) simp_all
  have "f - of_int n / D = (f * D - of_int n) / D"
    using D by (simp add: field_simps)
  then have "\<bar>f - of_int n / D\<bar> = \<bar>(f * D - of_int n) / D\<bar>"
    by simp
  also have "\<dots> = \<bar>f * D - of_int n\<bar> / D"
    using D by simp
  also note le
  also have "(1 / 2) / D = 1 / (2 * D)"
    by simp
  finally show ?thesis by (simp add: n_def D_def)
qed

lemma round_range:
  fixes f :: real and d :: int
  assumes "0 \<le> f" "f < 1" "0 < d"
  shows "0 \<le> Math_round (f * of_int d) \<and> Math_round (f * of_int d) \<le> d"
proof -
  have "0 \<le> f * of_int d" using assms by simp
  moreover have "f * of_int d < of_int d" using assms by simp
  ultimately show ?thesis unfolding Math_round_def by linarith
qed


lemma search_loop_rule:
  assumes init: "P d s"
    and step: "\<And>d s. 0 < d \<Longrightarrow> d \<le> m \<Longrightarrow> P d s \<Longrightarrow> P (d * 2) (loop_body f d s)"
  shows "\<exists>d'. P d' (search_loop f m d s) \<and> \<not> (0 < d' \<and> d' \<le> m)"
  using assms
proof (induction f m d s rule: search_loop.induct)
  case (1 f m d s)
  show ?case
  proof (cases "0 < d \<and> d \<le> m")
    case True
    then have "P (d * 2) (loop_body f d s)"
      using "1.prems"(2) [of d s] "1.prems"(1) by simp
    then have "\<exists>d'. P d' (search_loop f m (d * 2) (loop_body f d s)) \<and> \<not> (0 < d' \<and> d' \<le> m)"
      using "1.IH" [OF True] "1.prems"(2) by blast
    then show ?thesis
      using True by (subst search_loop.simps) simp
  next
    case False
    then have "search_loop f m d s = s"
      by (subst search_loop.simps) auto
    then show ?thesis
      using False "1.prems"(1) by auto
  qed
qed

lemma loop_body_cases:
  fixes f :: real
  defines "n d \<equiv> Math_round (f * of_int d)"
  defines "err d \<equiv> \<bar>f - of_int (n d) / of_int d\<bar>"
  shows "(loop_body f d s = s \<and> minError s - 0.00001 \<le> err d)
       \<or> (loop_body f d s = \<lparr>bestNumerator = n d, bestDenominator = d, minError = err d\<rparr>
          \<and> err d < minError s - 0.00001)"
  unfolding loop_body_def n_def err_def Let_def by auto

lemma search_loop_fixed:
  assumes "\<And>d. 0 < d \<Longrightarrow> d \<le> m \<Longrightarrow> loop_body f d s = s"
  shows "search_loop f m d s = s"
proof -
  have "\<exists>d'. search_loop f m d s = s \<and> \<not> (0 < d' \<and> d' \<le> m)"
    by (rule search_loop_rule [where P = "\<lambda>d t. t = s"]) (simp_all add: assms)
  then show ?thesis by blast
qed

lemma search_loop_shape:
  fixes f :: real and m :: int
  assumes f: "0 \<le> f" "f < 1"
  defines "r \<equiv> search_loop f m 2 (seed f)"
  shows "(\<exists>k. bestDenominator r = 2 ^ k)"
    and "bestDenominator r = 1 \<or> bestDenominator r \<le> m"
    and "0 \<le> bestNumerator r" and "bestNumerator r \<le> bestDenominator r"
    and "minError r = \<bar>f - of_int (bestNumerator r) / of_int (bestDenominator r)\<bar>"
proof -
  let ?P = "\<lambda>(d::int) s. (\<exists>j::nat. d = 2 ^ j) \<and> (\<exists>k::nat. bestDenominator s = 2 ^ k)
     \<and> (bestDenominator s = 1 \<or> bestDenominator s \<le> m)
     \<and> 0 \<le> bestNumerator s \<and> bestNumerator s \<le> bestDenominator s
     \<and> minError s = \<bar>f - of_int (bestNumerator s) / of_int (bestDenominator s)\<bar>"
  have init: "?P 2 (seed f)"
  proof -
    have "\<exists>j::nat. (2::int) = 2 ^ j" by (rule exI [of _ 1]) simp
    moreover have "\<exists>k::nat. (1::int) = 2 ^ k" by (rule exI [of _ 0]) simp
    ultimately show ?thesis by (simp add: seed_def)
  qed
  have step: "?P (d * 2) (loop_body f d s)" if d: "0 < d" "d \<le> m" and P: "?P d s" for d s
  proof -
    from P obtain j :: nat where j: "d = 2 ^ j" by blast
    have dj: "\<exists>j'::nat. d * 2 = 2 ^ j'" by (rule exI [of _ "Suc j"]) (simp add: j)
    from loop_body_cases [of f d s] show ?thesis
    proof
      assume "loop_body f d s = s \<and> minError s - 0.00001 \<le> \<bar>f - of_int (Math_round (f * of_int d)) / of_int d\<bar>"
      then show ?thesis using P dj by simp
    next
      assume a: "loop_body f d s = \<lparr>bestNumerator = Math_round (f * of_int d), bestDenominator = d,
           minError = \<bar>f - of_int (Math_round (f * of_int d)) / of_int d\<bar>\<rparr>
         \<and> \<bar>f - of_int (Math_round (f * of_int d)) / of_int d\<bar> < minError s - 0.00001"
      have "\<exists>k::nat. d = 2 ^ k" using j by blast
      then show ?thesis
        using a dj d round_range [OF f d(1)] by simp
    qed
  qed
  have "\<exists>d'. ?P d' (search_loop f m 2 (seed f)) \<and> \<not> (0 < d' \<and> d' \<le> m)"
    by (rule search_loop_rule [where P = ?P, OF init step])
  then obtain d' where res: "?P d' r" unfolding r_def by blast
  from res show "\<exists>k. bestDenominator r = 2 ^ k" by blast
  from res show "bestDenominator r = 1 \<or> bestDenominator r \<le> m" by blast
  from res show "0 \<le> bestNumerator r" by blast
  from res show "bestNumerator r \<le> bestDenominator r" by blast
  from res show "minError r = \<bar>f - of_int (bestNumerator r) / of_int (bestDenominator r)\<bar>" by blast
qed


lemma pow2_le_cases:
  fixes j k :: nat
  assumes "(2::int) ^ j \<le> 2 * 2 ^ k" and "(2::int) ^ k < 2 ^ j"
  shows "(2::int) ^ j = 2 * 2 ^ k"
proof -
  have "(2::int) ^ j \<le> 2 ^ Suc k" using assms(1) by simp
  then have "j \<le> Suc k" by (simp only: power_increasing_iff) 
  moreover have "k < j" using assms(2) by (simp only: power_strict_increasing_iff) 
  ultimately have "j = Suc k" by simp
  then show ?thesis by simp
qed

lemma search_loop_bound:
  fixes f :: real and k :: nat
  assumes m: "m = 2 ^ Suc k"
  shows "minError (search_loop f m 2 (seed f)) \<le> 1 / (2 * of_int m) + 0.00001"
proof -
  let ?P = "\<lambda>(d::int) s. (\<exists>j::nat. d = 2 ^ Suc j) \<and> d \<le> 2 * m
     \<and> (d \<noteq> 2 \<longrightarrow> minError s \<le> 1 / of_int d + 0.00001)"
  have init: "?P 2 (seed f)"
  proof -
    have "\<exists>j::nat. (2::int) = 2 ^ Suc j" by (rule exI [of _ 0]) simp
    moreover have "(1::int) \<le> 2 ^ k" by simp
    then have "(2::int) \<le> 2 * m" unfolding m power_Suc by linarith
    ultimately show ?thesis by simp
  qed
  have step: "?P (d * 2) (loop_body f d s)" if d: "0 < d" "d \<le> m" and P: "?P d s" for d s
  proof -
    from P obtain j :: nat where j: "d = 2 ^ Suc j" by blast
    have dj: "\<exists>j'::nat. d * 2 = 2 ^ Suc j'" by (rule exI [of _ "Suc j"]) (simp add: j)
    have e: "\<bar>f - of_int (Math_round (f * of_int d)) / of_int d\<bar> \<le> 1 / (2 * of_int d)"
      by (rule round_error_bound [OF d(1)])
    have "minError (loop_body f d s) \<le> 1 / (2 * of_int d) + 0.00001"
      using loop_body_cases [of f d s] e by auto
    then have "minError (loop_body f d s) \<le> 1 / of_int (d * 2) + 0.00001"
      by (simp add: mult.commute)
    then show ?thesis using dj d by simp
  qed
  have "\<exists>d'. ?P d' (search_loop f m 2 (seed f)) \<and> \<not> (0 < d' \<and> d' \<le> m)"
    by (rule search_loop_rule [where P = ?P, OF init step])
  then obtain d' j where d': "d' = 2 ^ Suc j" "d' \<le> 2 * m" "\<not> (0 < d' \<and> d' \<le> m)"
    and b: "d' \<noteq> 2 \<longrightarrow> minError (search_loop f m 2 (seed f)) \<le> 1 / of_int d' + 0.00001"
    by blast
  have "0 < d'" using d'(1) by simp
  then have "m < d'" using d'(3) by simp
  then have "(2::int) ^ Suc j = 2 * 2 ^ Suc k"
    using d'(1,2) m by (intro pow2_le_cases) simp_all
  then have eq: "d' = 2 * m" using d'(1) m by simp
  have "(1::int) \<le> 2 ^ k" by simp
  then have "2 \<le> m" unfolding m power_Suc by linarith
  then have "d' \<noteq> 2" using eq by simp
  with b eq show ?thesis by simp
qed

subsection \<open>Reduction to lowest terms\<close>

lemma dvd_pow2:
  fixes g :: int
  assumes "0 < g" and "g dvd 2 ^ k"
  shows "\<exists>i\<le>k. g = 2 ^ i"
  using assms
proof (induction k arbitrary: g)
  case 0
  then have "g = 1" by simp
  then show ?case by simp
next
  case (Suc k)
  show ?case
  proof (cases "even g")
    case True
    then obtain h where h: "g = 2 * h" by (elim evenE)
    with Suc.prems have "0 < h" and "h dvd 2 ^ k" by simp_all
    with Suc.IH obtain i where "i \<le> k" and "h = 2 ^ i" by blast
    then have "Suc i \<le> Suc k" and "g = 2 ^ Suc i" using h by simp_all
    then show ?thesis by blast
  next
    case False
    then have "coprime g 2" by simp
    then have "g dvd 2 ^ k"
      using Suc.prems(2) by (simp add: coprime_dvd_mult_right_iff)
    with Suc.IH Suc.prems(1) obtain i where "i \<le> k" and "g = 2 ^ i" by blast
    then have "i \<le> Suc k" and "g = 2 ^ i" by simp_all
    then show ?thesis by blast
  qed
qed

lemma reduce_props:
  fixes n d :: int and k :: nat
  assumes n: "0 \<le> n" "n \<le> d" and d: "d = 2 ^ k"
  defines "g \<equiv> gcd_js n d"
  shows "coprime (n div g) (d div g)"
    and "real_of_int (n div g) / real_of_int (d div g) = real_of_int n / real_of_int d"
    and "\<exists>j\<le>k. d div g = 2 ^ j"
    and "n = 0 \<longrightarrow> d div g = 1"
    and "0 \<le> n div g" and "n div g \<le> d div g"
    and "n = d \<longrightarrow> n div g = 1 \<and> d div g = 1"
proof -
  have dpos: "0 < d" using d by simp
  have g: "g = gcd n d"
    unfolding g_def using n dpos by (intro gcd_js_eq_gcd) simp_all
  have gpos: "0 < g" using dpos by (simp add: g)
  have gn: "g dvd n" and gd: "g dvd d" by (simp_all add: g)
  show "coprime (n div g) (d div g)"
    unfolding g using dpos by (intro div_gcd_coprime) simp
  have "real_of_int (n div g) = real_of_int n / real_of_int g"
    and "real_of_int (d div g) = real_of_int d / real_of_int g"
    using gn gd by (simp_all add: real_of_int_div)
  then show "real_of_int (n div g) / real_of_int (d div g) = real_of_int n / real_of_int d"
    using gpos by simp
  from dvd_pow2 [OF gpos] gd d obtain i where i: "i \<le> k" "g = 2 ^ i" by blast
  have "d div g = 2 ^ (k - i)"
    using i d by (simp add: power_diff)
  moreover have "k - i \<le> k" by simp
  ultimately show "\<exists>j\<le>k. d div g = 2 ^ j" by blast
  show "n = 0 \<longrightarrow> d div g = 1" using dpos by (simp add: g)
  show "0 \<le> n div g" using n(1) gpos by (simp add: pos_imp_zdiv_nonneg_iff)
  show "n div g \<le> d div g" using n(2) gpos by (simp add: zdiv_mono1)
  show "n = d \<longrightarrow> n div g = 1 \<and> d div g = 1" using dpos by (auto simp add: g)
qed

subsection \<open>Unfolding the two paths of \<open>decimalToFraction\<close>\<close>

lemma decimalToFraction_search:
  fixes val :: real and m :: int
  defines "f \<equiv> val - of_int \<lfloor>val\<rfloor>"
  defines "s \<equiv> search_loop f m 2 (seed f)"
  assumes "0.0001 \<le> f"
  shows "decimalToFraction val m =
     \<lparr>whole = \<lfloor>val\<rfloor>,
      numerator = bestNumerator s div gcd_js (bestNumerator s) (bestDenominator s),
      denominator = bestDenominator s div gcd_js (bestNumerator s) (bestDenominator s),
      decimal = val, error = minError s\<rparr>"
proof -
  have "\<not> \<bar>f\<bar> < 0.0001" using assms(3) by simp
  then show ?thesis
    unfolding decimalToFraction_def Let_def s_def f_def by simp
qed

section \<open>The whole-number fast path\<close>

text \<open>
  Claim C2, as amended. The fast path is taken exactly on the test
  \<open>|value - floor(value)| < 0.0001\<close>, and the fractional part is never negative, so it
  covers the values at an integer or less than \<open>0.0001\<close> above one: for each of them
  the result is \<open>numerator = 0\<close>, \<open>denominator = 1\<close>, \<open>error = 0\<close>, with
  \<open>whole = floor(value)\<close> and \<open>decimal = value\<close>, whatever the maximal denominator.
\<close>

theorem fast_path_at_or_above_integer:
  fixes val :: real
  assumes "val - of_int \<lfloor>val\<rfloor> < 0.0001"
  shows "decimalToFraction val maxDenominator =
     \<lparr>whole = \<lfloor>val\<rfloor>, numerator = 0, denominator = 1, decimal = val, error = 0\<rparr>"
proof -
  have "0 \<le> val - of_int \<lfloor>val\<rfloor>" by linarith
  then have "\<bar>val - of_int \<lfloor>val\<rfloor>\<bar> < 0.0001" using assms by simp
  then show ?thesis by (simp add: decimalToFraction_def Let_def)
qed

text \<open>The amended claim at \<open>5.00001\<close> with maximal denominator \<open>32\<close>.\<close>

theorem fast_path_at_or_above_integer_witness:
  "(500001 / 100000 :: real) - of_int \<lfloor>500001 / 100000 :: real\<rfloor> < 0.0001
   \<and> decimalToFraction (500001 / 100000) 32 =
     \<lparr>whole = 5, numerator = 0, denominator = 1, decimal = 500001 / 100000, error = 0\<rparr>"
proof -
  have h: "(500001 / 100000 :: real) - of_int \<lfloor>500001 / 100000 :: real\<rfloor> < 0.0001"
    by simp
  show ?thesis
    using h fast_path_at_or_above_integer [OF h, of 32] by simp
qed

text \<open>
  Claim C2 as stated fails just below an integer: \<open>4.99999\<close> is within \<open>0.0001\<close> of
  \<open>5\<close>, but its floor is \<open>4\<close> and its fractional part \<open>0.99999\<close>, so the search runs
  and returns the seed \<open>1/1\<close> with \<open>whole = 4\<close> and error \<open>0.00001\<close>.
\<close>

theorem just_below_integer_counterexample:
  "\<bar>(499999 / 100000 :: real) - 5\<bar> < 0.0001
   \<and> decimalToFraction (499999 / 100000) 16 =
     \<lparr>whole = 4, numerator = 1, denominator = 1, decimal = 499999 / 100000,
      error = 1 / 100000\<rparr>
   \<and> numerator (decimalToFraction (499999 / 100000) 16) \<noteq> 0"
  by (simp add: decimalToFraction_def seed_def search_loop.simps loop_body_def Math_round_def
      gcd_js.simps signed_modulo_int_def Let_def)

section \<open>Worked scenarios\<close>

text \<open>
  Claim C8. \<open>decimalToFraction 5.375 16\<close> is exactly
  \<open>{whole: 5, numerator: 3, denominator: 8, decimal: 5.375, error: 0}\<close> and formats as
  \<open>5 3/8\<close> followed by the inch mark. On the way: the search up to \<open>d = 8\<close> holds
  \<open>3/8\<close> with error zero; at \<open>d = 16\<close> the candidate is \<open>6/16\<close>, also with error
  zero, and the loop body leaves the state as it is; the common divisor of \<open>3\<close> and \<open>8\<close>
  is \<open>1\<close>.
\<close>

theorem five_and_three_eighths:
  "decimalToFraction (5375 / 1000) 16 =
     \<lparr>whole = 5, numerator = 3, denominator = 8, decimal = 5375 / 1000, error = 0\<rparr>
   \<and> formatFraction (decimalToFraction (5375 / 1000) 16) = ''5 3/8'' @ [CHR 0x22]
   \<and> search_loop (375 / 1000) 8 2 (seed (375 / 1000)) =
       \<lparr>bestNumerator = 3, bestDenominator = 8, minError = 0\<rparr>
   \<and> Math_round (375 / 1000 * of_int 16) = 6
   \<and> \<bar>375 / 1000 - of_int (6::int) / of_int 16\<bar> = (0::real)
   \<and> loop_body (375 / 1000) 16 \<lparr>bestNumerator = 3, bestDenominator = 8, minError = 0\<rparr> =
       \<lparr>bestNumerator = 3, bestDenominator = 8, minError = 0\<rparr>
   \<and> gcd_js 3 8 = 1"
  by (simp add: decimalToFraction_def seed_def search_loop.simps loop_body_def Math_round_def
      gcd_js.simps signed_modulo_int_def Let_def formatFraction_def show_int_def
      show_nat.simps digit_char_def inch_mark_def)

section \<open>Results that keep the seed\<close>

lemma gcd_js_1_1: "gcd_js 1 1 = 1"
  by (simp add: gcd_js.simps signed_modulo_int_def)

lemma seed_result:
  fixes val :: real and m :: int
  defines "f \<equiv> val - of_int \<lfloor>val\<rfloor>"
  assumes "0.0001 \<le> f" and "search_loop f m 2 (seed f) = seed f"
  shows "decimalToFraction val m =
     \<lparr>whole = \<lfloor>val\<rfloor>, numerator = 1, denominator = 1, decimal = val, error = 1 - f\<rparr>"
proof -
  have "f < 1" unfolding f_def by linarith
  then have "\<bar>f - 1\<bar> = 1 - f" by simp
  then show ?thesis
    using assms(2) assms(3) [unfolded f_def]
    by (simp add: decimalToFraction_search f_def seed_def gcd_js_1_1)
qed

lemma formatFraction_roll_over:
  "numerator r = denominator r \<Longrightarrow> formatFraction r = show_int (whole r + 1) @ inch_mark"
  by (simp add: formatFraction_def)

section \<open>Formatting\<close>

text \<open>
  Claim C7. For a result whose denominator is not zero (the data model has it positive),
  \<open>formatFraction\<close> renders: the whole number and the inch mark when the numerator is
  \<open>0\<close>; \<open>whole + 1\<close> and the inch mark, with no fraction, when the numerator equals the
  denominator (the roll-over); \<open>numerator/denominator\<close> and the inch mark, with no
  leading whole number, when neither holds and \<open>whole = 0\<close>; and otherwise the whole
  number, a space, \<open>numerator/denominator\<close> and the inch mark.
\<close>

theorem formatFraction_cases:
  "(numerator r = 0 \<and> denominator r \<noteq> 0 \<longrightarrow>
      formatFraction r = show_int (whole r) @ inch_mark)
   \<and> (numerator r = denominator r \<longrightarrow>
      formatFraction r = show_int (whole r + 1) @ inch_mark)
   \<and> (numerator r \<noteq> 0 \<and> numerator r \<noteq> denominator r \<and> whole r = 0 \<longrightarrow>
      formatFraction r = show_int (numerator r) @ ''/'' @ show_int (denominator r) @ inch_mark)
   \<and> (numerator r \<noteq> 0 \<and> numerator r \<noteq> denominator r \<and> whole r \<noteq> 0 \<longrightarrow>
      formatFraction r = show_int (whole r) @ '' '' @ show_int (numerator r) @ ''/''
        @ show_int (denominator r) @ inch_mark)"
  by (simp add: formatFraction_def)

text \<open>The four branches at \<open>12\<close>, at the roll-over \<open>4 1/1\<close>, at \<open>1/16\<close> and at
  \<open>5 3/8\<close>.\<close>

theorem formatFraction_cases_witness:
  "formatFraction \<lparr>whole = 12, numerator = 0, denominator = 1, decimal = 12, error = 0\<rparr>
     = ''12'' @ [CHR 0x22]
   \<and> formatFraction \<lparr>whole = 4, numerator = 1, denominator = 1, decimal = 4999 / 1000,
        error = 1 / 1000\<rparr> = ''5'' @ [CHR 0x22]
   \<and> formatFraction \<lparr>whole = 0, numerator = 1, denominator = 16, decimal = 625 / 10000,
        error = 0\<rparr> = ''1/16'' @ [CHR 0x22]
   \<and> formatFraction \<lparr>whole = 5, numerator = 3, denominator = 8, decimal = 5375 / 1000,
        error = 0\<rparr> = ''5 3/8'' @ [CHR 0x22]"
  using
    formatFraction_cases [of "\<lparr>whole = 12, numerator = 0, denominator = 1, decimal = 12, error = 0\<rparr>"]
    formatFraction_cases [of "\<lparr>whole = 4, numerator = 1, denominator = 1, decimal = 4999 / 1000,
        error = 1 / 1000\<rparr>"]
    formatFraction_cases [of "\<lparr>whole = 0, numerator = 1, denominator = 16, decimal = 625 / 10000,
        error = 0\<rparr>"]
    formatFraction_cases [of "\<lparr>whole = 5, numerator = 3, denominator = 8, decimal = 5375 / 1000,
        error = 0\<rparr>"]
  by (simp add: show_int_def show_nat.simps digit_char_def inch_mark_def)

section \<open>Maximal denominator one\<close>

text \<open>
  Claim C10. With \<open>maxDenominator = 1\<close> the loop, entered at \<open>d = 2\<close>, runs its body
  not once. So for every value whose fractional part is at least \<open>0.0001\<close> the result is
  the seed: \<open>numerator = 1\<close>, \<open>denominator = 1\<close>, \<open>error = 1 - fractionalPart\<close>, and
  \<open>formatFraction\<close> renders \<open>floor(value) + 1\<close> with the inch mark.
\<close>

theorem max_denominator_one:
  fixes val :: real
  assumes "0.0001 \<le> val - of_int \<lfloor>val\<rfloor>"
  shows "search_loop (val - of_int \<lfloor>val\<rfloor>) 1 2 (seed (val - of_int \<lfloor>val\<rfloor>))
           = seed (val - of_int \<lfloor>val\<rfloor>)
     \<and> decimalToFraction val 1 =
         \<lparr>whole = \<lfloor>val\<rfloor>, numerator = 1, denominator = 1, decimal = val,
          error = 1 - (val - of_int \<lfloor>val\<rfloor>)\<rparr>
     \<and> formatFraction (decimalToFraction val 1) = show_int (\<lfloor>val\<rfloor> + 1) @ inch_mark"
proof -
  have loop: "search_loop (val - of_int \<lfloor>val\<rfloor>) 1 2 (seed (val - of_int \<lfloor>val\<rfloor>))
           = seed (val - of_int \<lfloor>val\<rfloor>)"
    by (subst search_loop.simps) simp
  have res: "decimalToFraction val 1 =
         \<lparr>whole = \<lfloor>val\<rfloor>, numerator = 1, denominator = 1, decimal = val,
          error = 1 - (val - of_int \<lfloor>val\<rfloor>)\<rparr>"
    by (rule seed_result [OF assms loop])
  have "formatFraction (decimalToFraction val 1) = show_int (\<lfloor>val\<rfloor> + 1) @ inch_mark"
    by (subst formatFraction_roll_over) (simp_all add: res)
  with loop res show ?thesis by blast
qed

text \<open>At \<open>5.01\<close> the result is \<open>5 1/1\<close> with error \<open>0.99\<close>, rendered as \<open>6\<close> inches.\<close>

theorem max_denominator_one_witness:
  "(0.0001::real) \<le> 501 / 100 - of_int \<lfloor>501 / 100 :: real\<rfloor>
   \<and> decimalToFraction (501 / 100) 1 =
       \<lparr>whole = 5, numerator = 1, denominator = 1, decimal = 501 / 100, error = 99 / 100\<rparr>
   \<and> formatFraction (decimalToFraction (501 / 100) 1) = ''6'' @ [CHR 0x22]"
proof -
  have h: "(0.0001::real) \<le> 501 / 100 - of_int \<lfloor>501 / 100 :: real\<rfloor>"
    by simp
  note t = max_denominator_one [OF h]
  have "decimalToFraction (501 / 100) 1 =
       \<lparr>whole = 5, numerator = 1, denominator = 1, decimal = 501 / 100, error = 99 / 100\<rparr>"
    using t [THEN conjunct2, THEN conjunct1] by simp
  moreover have "formatFraction (decimalToFraction (501 / 100) 1) = ''6'' @ [CHR 0x22]"
    using t [THEN conjunct2, THEN conjunct2]
    by (simp add: show_int_def show_nat.simps digit_char_def inch_mark_def)
  ultimately show ?thesis using h by blast
qed

section \<open>The roll-over path\<close>

lemma round_to_denominator:
  fixes f :: real and d m :: int
  assumes f: "f < 1" "1 - 1 / (2 * of_int m) < f" and d: "0 < d" "d \<le> m"
  shows "Math_round (f * of_int d) = d"
proof -
  have m: "0 < m" using d by simp
  define g where "g = 1 - f"
  have g: "0 < g" "g < 1 / (2 * of_int m)" using f by (simp_all add: g_def)
  have "g * of_int d \<le> g * of_int m"
    using g(1) d(2) by (intro mult_left_mono) simp_all
  also have "g * of_int m < 1 / (2 * of_int m) * of_int m"
    using g(2) m by (intro mult_strict_right_mono) simp_all
  also have "1 / (2 * of_int m) * of_int m = (1 / 2 :: real)"
    using m by simp
  finally have "g * of_int d < 1 / 2" .
  moreover have "f * of_int d = of_int d - g * of_int d"
    by (simp add: g_def algebra_simps)
  moreover have "0 < g * of_int d" using g(1) d(1) by simp
  ultimately have "of_int d \<le> f * of_int d + 1 / 2" and "f * of_int d + 1 / 2 < of_int d + 1"
    by simp_all
  then show ?thesis unfolding Math_round_def by (intro floor_unique) simp_all
qed

lemma loop_body_keeps_seed:
  fixes f :: real and d m :: int
  assumes f: "f < 1" "1 - 1 / (2 * of_int m) < f" and d: "0 < d" "d \<le> m"
  shows "loop_body f d (seed f) = seed f"
proof -
  have "Math_round (f * of_int d) = d" by (rule round_to_denominator [OF f d])
  then show ?thesis using d(1) by (simp add: loop_body_def seed_def Let_def)
qed

text \<open>
  Claim C9. Let \<open>f\<close> be the fractional part of the value and suppose
  \<open>f > 1 - 1/(2 * maxDenominator)\<close>. Then every candidate denominator \<open>d\<close> up to
  \<open>maxDenominator\<close> rounds to \<open>n = d\<close>, with error \<open>1 - f\<close>, which is the error of the
  seed \<open>1/1\<close>, and the loop body leaves the seed in place. So the result is
  \<open>numerator = 1\<close>, \<open>denominator = 1\<close>, \<open>error = 1 - f\<close>, and \<open>formatFraction\<close> renders
  \<open>floor(value) + 1\<close> with the inch mark.
\<close>

theorem roll_over_path:
  fixes val :: real and maxDenominator :: int
  defines "f \<equiv> val - of_int \<lfloor>val\<rfloor>"
  assumes "1 - 1 / (2 * of_int maxDenominator) < f"
  shows "(\<forall>d. 0 < d \<and> d \<le> maxDenominator \<longrightarrow>
            Math_round (f * of_int d) = d
          \<and> \<bar>f - of_int (Math_round (f * of_int d)) / of_int d\<bar> = 1 - f
          \<and> loop_body f d (seed f) = seed f)
     \<and> minError (seed f) = 1 - f
     \<and> decimalToFraction val maxDenominator =
         \<lparr>whole = \<lfloor>val\<rfloor>, numerator = 1, denominator = 1, decimal = val, error = 1 - f\<rparr>
     \<and> formatFraction (decimalToFraction val maxDenominator)
         = show_int (\<lfloor>val\<rfloor> + 1) @ inch_mark"
proof -
  have f1: "f < 1" and f0: "0 \<le> f" unfolding f_def by linarith+
  have "0 < 1 / (2 * real_of_int maxDenominator)" using assms(2) f1 by linarith
  then have m: "0 < maxDenominator" by (simp add: zero_less_divide_iff)
  then have "1 / (2 * real_of_int maxDenominator) \<le> 1 / 2"
    by (simp add: field_simps)
  then have big: "0.0001 \<le> f" using assms(2) by simp
  have cand: "Math_round (f * of_int d) = d
          \<and> \<bar>f - of_int (Math_round (f * of_int d)) / of_int d\<bar> = 1 - f
          \<and> loop_body f d (seed f) = seed f" if "0 < d \<and> d \<le> maxDenominator" for d
  proof -
    from that have d: "0 < d" "d \<le> maxDenominator" by simp_all
    have r: "Math_round (f * of_int d) = d" by (rule round_to_denominator [OF f1 assms(2) d])
    have "\<bar>f - of_int (Math_round (f * of_int d)) / of_int d\<bar> = 1 - f"
      using d(1) f1 by (simp add: r)
    with r loop_body_keeps_seed [OF f1 assms(2) d] show ?thesis by simp
  qed
  have se: "minError (seed f) = 1 - f" using f1 by (simp add: seed_def)
  have "search_loop f maxDenominator 2 (seed f) = seed f"
    by (rule search_loop_fixed) (rule loop_body_keeps_seed [OF f1 assms(2)])
  then have res: "decimalToFraction val maxDenominator =
         \<lparr>whole = \<lfloor>val\<rfloor>, numerator = 1, denominator = 1, decimal = val, error = 1 - f\<rparr>"
    unfolding f_def using big [unfolded f_def] by (intro seed_result)
  have "formatFraction (decimalToFraction val maxDenominator)
         = show_int (\<lfloor>val\<rfloor> + 1) @ inch_mark"
    by (subst formatFraction_roll_over) (simp_all add: res)
  with cand se res show ?thesis by blast
qed

text \<open>At \<open>4.999\<close> with maximal denominator \<open>16\<close> the candidate at \<open>d = 16\<close> is \<open>16/16\<close>,
  the result is \<open>4 1/1\<close> and it is rendered as \<open>5\<close> inches.\<close>

theorem roll_over_path_witness:
  "(1::real) - 1 / (2 * of_int 16) < 4999 / 1000 - of_int \<lfloor>4999 / 1000 :: real\<rfloor>
   \<and> (0::int) < 16 \<and> (16::int) \<le> 16
   \<and> Math_round ((4999 / 1000 - of_int \<lfloor>4999 / 1000 :: real\<rfloor>) * of_int 16) = 16
   \<and> decimalToFraction (4999 / 1000) 16 =
       \<lparr>whole = 4, numerator = 1, denominator = 1, decimal = 4999 / 1000, error = 1 / 1000\<rparr>
   \<and> formatFraction (decimalToFraction (4999 / 1000) 16) = ''5'' @ [CHR 0x22]"
proof -
  have h: "(1::real) - 1 / (2 * of_int 16) < 4999 / 1000 - of_int \<lfloor>4999 / 1000 :: real\<rfloor>"
    by simp
  note t = roll_over_path [OF h]
  have d: "(0::int) < 16 \<and> (16::int) \<le> 16" by simp
  have "Math_round ((4999 / 1000 - of_int \<lfloor>4999 / 1000 :: real\<rfloor>) * of_int 16) = 16"
    using t [THEN conjunct1, THEN spec, of 16] d by blast
  moreover have "decimalToFraction (4999 / 1000) 16 =
       \<lparr>whole = 4, numerator = 1, denominator = 1, decimal = 4999 / 1000, error = 1 / 1000\<rparr>"
    using t [THEN conjunct2, THEN conjunct2, THEN conjunct1] by simp
  moreover have "formatFraction (decimalToFraction (4999 / 1000) 16) = ''5'' @ [CHR 0x22]"
    using t [THEN conjunct2, THEN conjunct2, THEN conjunct2]
    by (simp add: show_int_def show_nat.simps digit_char_def inch_mark_def)
  ultimately show ?thesis using h d by blast
qed

section \<open>The preference for the simplest denominator\<close>

lemma search_loop_settled:
  assumes "minError s \<le> 0.00001"
  shows "search_loop f m d s = s"
proof (rule search_loop_fixed)
  fix d' :: int
  show "loop_body f d' s = s"
    using assms by (simp add: loop_body_def Let_def)
qed

lemma search_loop_step:
  "0 < d \<Longrightarrow> d \<le> m \<Longrightarrow> search_loop f m d s = search_loop f m (d * 2) (loop_body f d s)"
  by (subst search_loop.simps) simp

lemma gcd_js_1_pow: "gcd_js 1 2 = 1" "gcd_js 1 4 = 1" "gcd_js 1 8 = 1"
  by (simp_all add: gcd_js.simps signed_modulo_int_def)

lemma half_result:
  assumes "2 \<le> m"
  shows "decimalToFraction (1 / 2) m =
    \<lparr>whole = 0, numerator = 1, denominator = 2, decimal = 1 / 2, error = 0\<rparr>"
proof -
  have "search_loop (1 / 2) m 2 (seed (1 / 2)) =
      search_loop (1 / 2) m (2 * 2) (loop_body (1 / 2) 2 (seed (1 / 2)))"
    using assms by (intro search_loop_step) simp_all
  also have "loop_body (1 / 2) 2 (seed (1 / 2)) =
      \<lparr>bestNumerator = 1, bestDenominator = 2, minError = 0\<rparr>"
    by (simp add: loop_body_def seed_def Math_round_def Let_def)
  also have "search_loop (1 / 2) m (2 * 2) \<lparr>bestNumerator = 1, bestDenominator = 2, minError = 0\<rparr>
      = \<lparr>bestNumerator = 1, bestDenominator = 2, minError = 0\<rparr>"
    by (rule search_loop_settled) simp
  finally have s: "search_loop (1 / 2) m 2 (seed (1 / 2)) =
      \<lparr>bestNumerator = 1, bestDenominator = 2, minError = 0\<rparr>" .
  have "(0.0001::real) \<le> 1 / 2 - of_int \<lfloor>1 / 2 :: real\<rfloor>" by simp
  from decimalToFraction_search [OF this, of m] show ?thesis
    by (simp add: s gcd_js_1_pow)
qed

lemma quarter_result:
  assumes "4 \<le> m"
  shows "decimalToFraction (1 / 4) m =
    \<lparr>whole = 0, numerator = 1, denominator = 4, decimal = 1 / 4, error = 0\<rparr>"
proof -
  have "search_loop (1 / 4) m 2 (seed (1 / 4)) =
      search_loop (1 / 4) m (2 * 2) (loop_body (1 / 4) 2 (seed (1 / 4)))"
    using assms by (intro search_loop_step) simp_all
  also have "loop_body (1 / 4) 2 (seed (1 / 4)) =
      \<lparr>bestNumerator = 1, bestDenominator = 2, minError = 1 / 4\<rparr>"
    by (simp add: loop_body_def seed_def Math_round_def Let_def)
  also have "search_loop (1 / 4) m (2 * 2) \<lparr>bestNumerator = 1, bestDenominator = 2, minError = 1 / 4\<rparr>
      = search_loop (1 / 4) m (4 * 2)
          (loop_body (1 / 4) 4 \<lparr>bestNumerator = 1, bestDenominator = 2, minError = 1 / 4\<rparr>)"
    using assms by (simp add: search_loop_step)
  also have "loop_body (1 / 4) 4 \<lparr>bestNumerator = 1, bestDenominator = 2, minError = 1 / 4\<rparr> =
      \<lparr>bestNumerator = 1, bestDenominator = 4, minError = 0\<rparr>"
    by (simp add: loop_body_def Math_round_def Let_def)
  also have "search_loop (1 / 4) m (4 * 2) \<lparr>bestNumerator = 1, bestDenominator = 4, minError = 0\<rparr>
      = \<lparr>bestNumerator = 1, bestDenominator = 4, minError = 0\<rparr>"
    by (rule search_loop_settled) simp
  finally have s: "search_loop (1 / 4) m 2 (seed (1 / 4)) =
      \<lparr>bestNumerator = 1, bestDenominator = 4, minError = 0\<rparr>" .
  have "(0.0001::real) \<le> 1 / 4 - of_int \<lfloor>1 / 4 :: real\<rfloor>" by simp
  from decimalToFraction_search [OF this, of m] show ?thesis
    by (simp add: s gcd_js_1_pow)
qed

lemma eighth_result:
  assumes "8 \<le> m"
  shows "decimalToFraction (1 / 8) m =
    \<lparr>whole = 0, numerator = 1, denominator = 8, decimal = 1 / 8, error = 0\<rparr>"
proof -
  have "search_loop (1 / 8) m 2 (seed (1 / 8)) =
      search_loop (1 / 8) m (2 * 2) (loop_body (1 / 8) 2 (seed (1 / 8)))"
    using assms by (intro search_loop_step) simp_all
  also have "loop_body (1 / 8) 2 (seed (1 / 8)) =
      \<lparr>bestNumerator = 0, bestDenominator = 2, minError = 1 / 8\<rparr>"
    by (simp add: loop_body_def seed_def Math_round_def Let_def)
  also have "search_loop (1 / 8) m (2 * 2) \<lparr>bestNumerator = 0, bestDenominator = 2, minError = 1 / 8\<rparr>
      = search_loop (1 / 8) m (4 * 2)
          (loop_body (1 / 8) 4 \<lparr>bestNumerator = 0, bestDenominator = 2, minError = 1 / 8\<rparr>)"
    using assms by (simp add: search_loop_step)
  also have "loop_body (1 / 8) 4 \<lparr>bestNumerator = 0, bestDenominator = 2, minError = 1 / 8\<rparr> =
      \<lparr>bestNumerator = 0, bestDenominator = 2, minError = 1 / 8\<rparr>"
    by (simp add: loop_body_def Math_round_def Let_def)
  also have "search_loop (1 / 8) m (4 * 2) \<lparr>bestNumerator = 0, bestDenominator = 2, minError = 1 / 8\<rparr>
      = search_loop (1 / 8) m (8 * 2)
          (loop_body (1 / 8) 8 \<lparr>bestNumerator = 0, bestDenominator = 2, minError = 1 / 8\<rparr>)"
    using assms by (simp add: search_loop_step)
  also have "loop_body (1 / 8) 8 \<lparr>bestNumerator = 0, bestDenominator = 2, minError = 1 / 8\<rparr> =
      \<lparr>bestNumerator = 1, bestDenominator = 8, minError = 0\<rparr>"
    by (simp add: loop_body_def Math_round_def Let_def)
  also have "search_loop (1 / 8) m (8 * 2) \<lparr>bestNumerator = 1, bestDenominator = 8, minError = 0\<rparr>
      = \<lparr>bestNumerator = 1, bestDenominator = 8, minError = 0\<rparr>"
    by (rule search_loop_settled) simp
  finally have s: "search_loop (1 / 8) m 2 (seed (1 / 8)) =
      \<lparr>bestNumerator = 1, bestDenominator = 8, minError = 0\<rparr>" .
  have "(0.0001::real) \<le> 1 / 8 - of_int \<lfloor>1 / 8 :: real\<rfloor>" by simp
  from decimalToFraction_search [OF this, of m] show ?thesis
    by (simp add: s gcd_js_1_pow)
qed

text \<open>
  Claim C5. The loop body replaces the running best only when the candidate's error is
  below the best error by more than \<open>0.00001\<close>. So for every maximal denominator in
  \<open>{16, 32, 64}\<close>, \<open>0.5\<close> yields \<open>1/2\<close>, \<open>0.25\<close> yields \<open>1/4\<close> and \<open>0.125\<close>
  yields \<open>1/8\<close>.
\<close>

theorem simplest_denominator_wins:
  fixes maxDenominator :: int
  assumes "maxDenominator \<in> {16, 32, 64}"
  shows "(\<forall>f d s. loop_body f d s \<noteq> s \<longrightarrow>
            \<bar>f - of_int (Math_round (f * of_int d)) / of_int d\<bar> < minError s - 0.00001)
     \<and> numerator (decimalToFraction 0.5 maxDenominator) = 1
     \<and> denominator (decimalToFraction 0.5 maxDenominator) = 2
     \<and> numerator (decimalToFraction 0.25 maxDenominator) = 1
     \<and> denominator (decimalToFraction 0.25 maxDenominator) = 4
     \<and> numerator (decimalToFraction 0.125 maxDenominator) = 1
     \<and> denominator (decimalToFraction 0.125 maxDenominator) = 8"
proof -
  have m: "8 \<le> maxDenominator" using assms by auto
  have rule: "\<bar>f - of_int (Math_round (f * of_int d)) / of_int d\<bar> < minError s - 0.00001"
    if "loop_body f d s \<noteq> s" for f d s
    using that loop_body_cases [of f d s] by auto
  have "decimalToFraction 0.5 maxDenominator =
      \<lparr>whole = 0, numerator = 1, denominator = 2, decimal = 1 / 2, error = 0\<rparr>"
    using half_result [of maxDenominator] m by simp
  moreover have "decimalToFraction 0.25 maxDenominator =
      \<lparr>whole = 0, numerator = 1, denominator = 4, decimal = 1 / 4, error = 0\<rparr>"
    using quarter_result [of maxDenominator] m by simp
  moreover have "decimalToFraction 0.125 maxDenominator =
      \<lparr>whole = 0, numerator = 1, denominator = 8, decimal = 1 / 8, error = 0\<rparr>"
    using eighth_result [of maxDenominator] m by simp
  ultimately show ?thesis using rule by simp
qed

text \<open>At maximal denominator \<open>32\<close>; the body does replace the seed at \<open>d = 2\<close> for
  \<open>0.5\<close>, where the error drops from \<open>0.5\<close> to \<open>0\<close>.\<close>

theorem simplest_denominator_wins_witness:
  "(32::int) \<in> {16, 32, 64}
   \<and> loop_body (1 / 2) 2 (seed (1 / 2)) \<noteq> seed (1 / 2)
   \<and> \<bar>1 / 2 - of_int (Math_round (1 / 2 * of_int 2)) / of_int 2\<bar>
        < minError (seed (1 / 2)) - 0.00001
   \<and> numerator (decimalToFraction 0.5 32) = 1 \<and> denominator (decimalToFraction 0.5 32) = 2
   \<and> numerator (decimalToFraction 0.25 32) = 1 \<and> denominator (decimalToFraction 0.25 32) = 4
   \<and> numerator (decimalToFraction 0.125 32) = 1 \<and> denominator (decimalToFraction 0.125 32) = 8"
proof -
  have h: "(32::int) \<in> {16, 32, 64}" by simp
  note t = simplest_denominator_wins [OF h]
  have c: "loop_body (1 / 2) 2 (seed (1 / 2)) \<noteq> seed (1 / 2)"
    by (simp add: loop_body_def seed_def Math_round_def Let_def)
  have "\<bar>1 / 2 - of_int (Math_round (1 / 2 * of_int 2)) / of_int 2\<bar>
        < minError (seed (1 / 2)) - 0.00001"
    using t [THEN conjunct1, THEN spec, THEN spec, THEN spec, THEN mp, OF c] .
  with h c t [THEN conjunct2] show ?thesis by blast
qed

section \<open>Properties of every result\<close>

lemma fast_path_result:
  fixes val :: real
  assumes "val - of_int \<lfloor>val\<rfloor> < 0.0001"
  shows "decimalToFraction val m =
     \<lparr>whole = \<lfloor>val\<rfloor>, numerator = 0, denominator = 1, decimal = val, error = 0\<rparr>"
proof -
  have "0 \<le> val - of_int \<lfloor>val\<rfloor>" by linarith
  then have "\<bar>val - of_int \<lfloor>val\<rfloor>\<bar> < 0.0001" using assms by simp
  then show ?thesis by (simp add: decimalToFraction_def Let_def)
qed

lemma search_result_props:
  fixes val :: real and m :: int
  defines "f \<equiv> val - of_int \<lfloor>val\<rfloor>"
  defines "r \<equiv> decimalToFraction val m"
  assumes big: "0.0001 \<le> f"
  shows "whole r = \<lfloor>val\<rfloor>"
    and "coprime (numerator r) (denominator r)"
    and "error r = \<bar>f - of_int (numerator r) / of_int (denominator r)\<bar>"
    and "error r = minError (search_loop f m 2 (seed f))"
    and "\<exists>j. denominator r = 2 ^ j \<and> (denominator r = 1 \<or> denominator r \<le> m)"
    and "numerator r = 0 \<longrightarrow> denominator r = 1"
    and "0 \<le> numerator r" and "numerator r \<le> denominator r"
proof -
  define s where "s = search_loop f m 2 (seed f)"
  define g where "g = gcd_js (bestNumerator s) (bestDenominator s)"
  have f: "0 \<le> f" "f < 1" unfolding f_def by linarith+
  have r: "r = \<lparr>whole = \<lfloor>val\<rfloor>, numerator = bestNumerator s div g,
      denominator = bestDenominator s div g, decimal = val, error = minError s\<rparr>"
    unfolding r_def s_def g_def f_def
    by (rule decimalToFraction_search) (use big in \<open>simp add: f_def\<close>)
  from search_loop_shape [OF f, of m] obtain k where k: "bestDenominator s = 2 ^ k"
    and le: "bestDenominator s = 1 \<or> bestDenominator s \<le> m"
    and n: "0 \<le> bestNumerator s" "bestNumerator s \<le> bestDenominator s"
    and e: "minError s = \<bar>f - of_int (bestNumerator s) / of_int (bestDenominator s)\<bar>"
    unfolding s_def by blast
  note red = reduce_props [OF n k, folded g_def]
  show "whole r = \<lfloor>val\<rfloor>" by (simp add: r)
  show "coprime (numerator r) (denominator r)" using red(1) by (simp add: r)
  show "error r = \<bar>f - of_int (numerator r) / of_int (denominator r)\<bar>"
    using red(2) e by (simp add: r)
  show "error r = minError (search_loop f m 2 (seed f))" by (simp add: r s_def)
  from red(3) obtain j where j: "j \<le> k" "bestDenominator s div g = 2 ^ j" by blast
  have "(2::int) ^ j \<le> 2 ^ k" using j(1) by simp
  then have dle: "bestDenominator s div g \<le> bestDenominator s" using j(2) k by simp
  have "(1::int) \<le> 2 ^ j" by simp
  then have dge: "1 \<le> bestDenominator s div g" using j(2) by simp
  have "bestDenominator s div g = 1 \<or> bestDenominator s div g \<le> m"
    using le dle dge by linarith
  then have "denominator r = 1 \<or> denominator r \<le> m"
    by (simp add: r)
  then show "\<exists>j. denominator r = 2 ^ j \<and> (denominator r = 1 \<or> denominator r \<le> m)"
    using j(2) by (auto simp add: r)
  show "numerator r = 0 \<longrightarrow> denominator r = 1"
  proof
    assume "numerator r = 0"
    then have z: "bestNumerator s div g = 0" by (simp add: r)
    have "0 < bestDenominator s" using k by simp
    then have "g = gcd (bestNumerator s) (bestDenominator s)"
      unfolding g_def using n(1) by (intro gcd_js_eq_gcd) simp_all
    then have "g dvd bestNumerator s" by simp
    with z have "bestNumerator s = 0" by (metis dvd_div_eq_0_iff)
    with red(4) show "denominator r = 1" by (simp add: r)
  qed
  show "0 \<le> numerator r" using red(5) by (simp add: r)
  show "numerator r \<le> denominator r" using red(6) by (simp add: r)
qed

subsection \<open>The error field\<close>

text \<open>
  Claim C1, as amended. For every input whose fractional part escapes the fast path, the
  magnitude of the error field is the distance \<open>|fractionalPart - numerator/denominator|\<close>
  between the fractional part and the returned fraction, which is the winning candidate
  (reduction does not change its value). In particular \<open>1/3\<close> at maximal denominator
  \<open>64\<close> yields numerator \<open>21\<close>, denominator \<open>64\<close> and an error of magnitude \<open>1/192\<close>,
  about \<open>0.0052\<close>. Nothing is said here of the sign of the field.
\<close>

theorem error_magnitude:
  fixes val :: real and maxDenominator :: int
  assumes "0.0001 \<le> val - of_int \<lfloor>val\<rfloor>"
  shows "\<bar>error (decimalToFraction val maxDenominator)\<bar> =
           \<bar>val - of_int \<lfloor>val\<rfloor>
              - of_int (numerator (decimalToFraction val maxDenominator))
                / of_int (denominator (decimalToFraction val maxDenominator))\<bar>
       \<and> numerator (decimalToFraction (1 / 3) 64) = 21
       \<and> denominator (decimalToFraction (1 / 3) 64) = 64
       \<and> \<bar>error (decimalToFraction (1 / 3) 64)\<bar> = 1 / 192"
proof -
  have "error (decimalToFraction val maxDenominator) =
           \<bar>val - of_int \<lfloor>val\<rfloor>
              - of_int (numerator (decimalToFraction val maxDenominator))
                / of_int (denominator (decimalToFraction val maxDenominator))\<bar>"
    by (rule search_result_props(3) [OF assms])
  then have "\<bar>error (decimalToFraction val maxDenominator)\<bar> =
           \<bar>val - of_int \<lfloor>val\<rfloor>
              - of_int (numerator (decimalToFraction val maxDenominator))
                / of_int (denominator (decimalToFraction val maxDenominator))\<bar>"
    by simp
  moreover have "decimalToFraction (1 / 3) 64 =
      \<lparr>whole = 0, numerator = 21, denominator = 64, decimal = 1 / 3, error = 1 / 192\<rparr>"
    by (simp add: decimalToFraction_def seed_def search_loop.simps loop_body_def Math_round_def
        gcd_js.simps signed_modulo_int_def Let_def)
  ultimately show ?thesis by simp
qed

text \<open>The amended claim at \<open>0.3\<close> with maximal denominator \<open>16\<close>.\<close>

theorem error_magnitude_witness:
  "(0.0001::real) \<le> 3 / 10 - of_int \<lfloor>3 / 10 :: real\<rfloor>
   \<and> \<bar>error (decimalToFraction (3 / 10) 16)\<bar> =
           \<bar>3 / 10 - of_int \<lfloor>3 / 10 :: real\<rfloor>
              - of_int (numerator (decimalToFraction (3 / 10) 16))
                / of_int (denominator (decimalToFraction (3 / 10) 16))\<bar>"
proof -
  have h: "(0.0001::real) \<le> 3 / 10 - of_int \<lfloor>3 / 10 :: real\<rfloor>" by simp
  from error_magnitude [OF h, of 16, THEN conjunct1] h show ?thesis by blast
qed

text \<open>
  Claim C1 as stated fails. At \<open>0.3\<close> with maximal denominator \<open>16\<close> the chosen fraction
  \<open>5/16\<close> exceeds the fractional part, the signed difference is \<open>-1/80\<close>, and the error
  field is \<open>+1/80\<close>. At \<open>1/3\<close> with maximal denominator \<open>64\<close> the fraction is
  \<open>21/64\<close>, below the fractional part, and the error field is \<open>1/192\<close>, neither negative
  nor near \<open>0.00077\<close>.
\<close>

theorem signed_error_counterexample:
  "numerator (decimalToFraction (3 / 10) 16) = 5
   \<and> denominator (decimalToFraction (3 / 10) 16) = 16
   \<and> (3 / 10 - 5 / 16 :: real) = - (1 / 80)
   \<and> error (decimalToFraction (3 / 10) 16) = 1 / 80
   \<and> numerator (decimalToFraction (1 / 3) 64) = 21
   \<and> denominator (decimalToFraction (1 / 3) 64) = 64
   \<and> error (decimalToFraction (1 / 3) 64) = 1 / 192"
  by (simp add: decimalToFraction_def seed_def search_loop.simps loop_body_def Math_round_def
      gcd_js.simps signed_modulo_int_def Let_def)

subsection \<open>The shape of the denominator\<close>

text \<open>
  Claim C3, as amended. For every value and every \<open>maxDenominator \<ge> 1\<close>, the denominator
  of the result is a power of two with \<open>1 \<le> denominator \<le> maxDenominator\<close>; a numerator
  \<open>0\<close> comes with denominator \<open>1\<close>; and a denominator \<open>1\<close> comes with numerator \<open>0\<close>
  or with numerator \<open>1\<close>, the roll-over result \<open>1/1\<close>.
\<close>

theorem denominator_shape:
  fixes val :: real and maxDenominator :: int
  assumes "1 \<le> maxDenominator"
  shows "(\<exists>k. denominator (decimalToFraction val maxDenominator) = 2 ^ k)
     \<and> 1 \<le> denominator (decimalToFraction val maxDenominator)
     \<and> denominator (decimalToFraction val maxDenominator) \<le> maxDenominator
     \<and> (numerator (decimalToFraction val maxDenominator) = 0 \<longrightarrow>
          denominator (decimalToFraction val maxDenominator) = 1)
     \<and> (denominator (decimalToFraction val maxDenominator) = 1 \<longrightarrow>
          numerator (decimalToFraction val maxDenominator) = 0
          \<or> numerator (decimalToFraction val maxDenominator) = 1)"
proof (cases "val - of_int \<lfloor>val\<rfloor> < 0.0001")
  case True
  have "\<exists>k::nat. (1::int) = 2 ^ k" by (rule exI [of _ 0]) simp
  then show ?thesis
    using assms by (simp add: fast_path_result [OF True])
next
  case False
  then have big: "0.0001 \<le> val - of_int \<lfloor>val\<rfloor>" by simp
  let ?r = "decimalToFraction val maxDenominator"
  note p = search_result_props [OF big, of maxDenominator]
  from p(5) obtain j where j: "denominator ?r = 2 ^ j"
    and le: "denominator ?r = 1 \<or> denominator ?r \<le> maxDenominator" by blast
  have "(1::int) \<le> 2 ^ j" by simp
  then have ge: "1 \<le> denominator ?r" using j by simp
  have le': "denominator ?r \<le> maxDenominator" using le assms by auto
  have "denominator ?r = 1 \<longrightarrow> numerator ?r = 0 \<or> numerator ?r = 1"
    using p(7) p(8) by auto
  with j ge le' p(6) show ?thesis by blast
qed

text \<open>At \<open>0.00015\<close> with maximal denominator \<open>16\<close> the search settles on \<open>0/2\<close>, reduced
  to \<open>0/1\<close>.\<close>

theorem denominator_shape_witness:
  "(1::int) \<le> 16
   \<and> numerator (decimalToFraction (3 / 20000) 16) = 0
   \<and> denominator (decimalToFraction (3 / 20000) 16) = 1
   \<and> denominator (decimalToFraction (3 / 20000) 16) \<le> 16"
proof -
  have h: "(1::int) \<le> 16" by simp
  have n: "numerator (decimalToFraction (3 / 20000) 16) = 0"
    by (simp add: decimalToFraction_def seed_def search_loop.simps loop_body_def Math_round_def
        gcd_js.simps signed_modulo_int_def Let_def)
  note t = denominator_shape [OF h, of "3 / 20000"]
  have d: "denominator (decimalToFraction (3 / 20000) 16) = 1"
    using t n by blast
  have "denominator (decimalToFraction (3 / 20000) 16) \<le> 16"
    using t by blast
  with h n d show ?thesis by blast
qed

text \<open>
  Claim C3 as stated fails on the roll-over result: \<open>4.999\<close> at maximal denominator \<open>16\<close>
  has denominator \<open>1\<close> and numerator \<open>1\<close>.
\<close>

theorem roll_over_denominator_counterexample:
  "denominator (decimalToFraction (4999 / 1000) 16) = 1
   \<and> numerator (decimalToFraction (4999 / 1000) 16) \<noteq> 0"
  by (simp add: decimalToFraction_def seed_def search_loop.simps loop_body_def Math_round_def
      gcd_js.simps signed_modulo_int_def Let_def)

subsection \<open>The round-trip bound\<close>

text \<open>
  Claim C4, as amended. For every value \<open>x\<close> and every maximal denominator \<open>d\<close> that is a
  power of two with \<open>d \<ge> 2\<close>, the result satisfies
  \<open>|x - (whole + numerator/denominator)| \<le> 1/(2d) + 0.0001\<close>. The tolerance covers the
  fast-path threshold \<open>0.0001\<close>; on the search path the acceptance margin \<open>0.00001\<close>
  suffices.
\<close>

theorem round_trip_bound:
  fixes val :: real and maxDenominator :: int and k :: nat
  assumes "maxDenominator = 2 ^ Suc k"
  shows "\<bar>val - (of_int (whole (decimalToFraction val maxDenominator))
                + of_int (numerator (decimalToFraction val maxDenominator))
                  / of_int (denominator (decimalToFraction val maxDenominator)))\<bar>
         \<le> 1 / (2 * of_int maxDenominator) + 0.0001"
proof (cases "val - of_int \<lfloor>val\<rfloor> < 0.0001")
  case True
  have f0: "0 \<le> val - of_int \<lfloor>val\<rfloor>" by linarith
  have m0: "(0::real) \<le> 1 / (2 * of_int maxDenominator)"
    using assms by simp
  have "\<bar>val - (of_int (whole (decimalToFraction val maxDenominator))
                + of_int (numerator (decimalToFraction val maxDenominator))
                  / of_int (denominator (decimalToFraction val maxDenominator)))\<bar>
      = val - of_int \<lfloor>val\<rfloor>"
    using f0 by (simp add: fast_path_result [OF True])
  also have "\<dots> \<le> 1 / (2 * of_int maxDenominator) + 0.0001"
    using True m0 by linarith
  finally show ?thesis .
next
  case False
  then have big: "0.0001 \<le> val - of_int \<lfloor>val\<rfloor>" by simp
  let ?r = "decimalToFraction val maxDenominator"
  let ?f = "val - of_int \<lfloor>val\<rfloor>"
  note p = search_result_props [OF big, of maxDenominator]
  have "val - (of_int (whole ?r) + of_int (numerator ?r) / of_int (denominator ?r))
      = ?f - of_int (numerator ?r) / of_int (denominator ?r)"
    by (simp add: p(1))
  then have "\<bar>val - (of_int (whole ?r) + of_int (numerator ?r) / of_int (denominator ?r))\<bar>
      = error ?r"
    using p(3) by simp
  also have "\<dots> = minError (search_loop ?f maxDenominator 2 (seed ?f))"
    by (rule p(4))
  also have "\<dots> \<le> 1 / (2 * of_int maxDenominator) + 0.00001"
    by (rule search_loop_bound [OF assms])
  also have "\<dots> \<le> 1 / (2 * of_int maxDenominator) + 0.0001"
    by simp
  finally show ?thesis .
qed

text \<open>The amended claim at \<open>1/3\<close> with maximal denominator \<open>16\<close>.\<close>

theorem round_trip_bound_witness:
  "(16::int) = 2 ^ Suc 3
   \<and> \<bar>(1 / 3 :: real) - (of_int (whole (decimalToFraction (1 / 3) 16))
                + of_int (numerator (decimalToFraction (1 / 3) 16))
                  / of_int (denominator (decimalToFraction (1 / 3) 16)))\<bar>
         \<le> 1 / (2 * of_int 16) + 0.0001"
proof -
  have h: "(16::int) = 2 ^ Suc 3" by simp
  from round_trip_bound [OF h, of "1 / 3"] h show ?thesis by blast
qed

text \<open>
  Claim C4 as stated fails at the maximal denominator \<open>1\<close>, a power of two: the loop
  never runs, \<open>0.01\<close> comes back as \<open>0 1/1\<close>, and the distance \<open>0.99\<close> exceeds
  \<open>1/2\<close> by more than any small tolerance, here even \<open>0.4\<close>.
\<close>

theorem max_denominator_one_bound_counterexample:
  "decimalToFraction (1 / 100) 1 =
     \<lparr>whole = 0, numerator = 1, denominator = 1, decimal = 1 / 100, error = 99 / 100\<rparr>
   \<and> \<not> \<bar>(1 / 100 :: real) - (of_int (whole (decimalToFraction (1 / 100) 1))
                + of_int (numerator (decimalToFraction (1 / 100) 1))
                  / of_int (denominator (decimalToFraction (1 / 100) 1)))\<bar>
         \<le> 1 / (2 * of_int 1) + 0.4"
  by (simp add: decimalToFraction_def seed_def search_loop.simps loop_body_def Math_round_def
      gcd_js.simps signed_modulo_int_def Let_def)

subsection \<open>Lowest terms\<close>

text \<open>
  Claim C6. For every value and every maximal denominator that is a power of two, the
  result has \<open>gcd(numerator, denominator) = 1\<close>, a numerator \<open>0\<close> comes with denominator
  \<open>1\<close>, and the denominator divides the maximal denominator; up to \<open>64\<close> it is one of
  \<open>1, 2, 4, 8, 16, 32, 64\<close>.
\<close>

theorem reduced_form:
  fixes val :: real and maxDenominator :: int and k :: nat
  assumes "maxDenominator = 2 ^ k"
  shows "gcd (numerator (decimalToFraction val maxDenominator))
             (denominator (decimalToFraction val maxDenominator)) = 1
     \<and> (numerator (decimalToFraction val maxDenominator) = 0 \<longrightarrow>
          denominator (decimalToFraction val maxDenominator) = 1)
     \<and> denominator (decimalToFraction val maxDenominator) dvd maxDenominator
     \<and> (maxDenominator \<le> 64 \<longrightarrow>
          denominator (decimalToFraction val maxDenominator) \<in> {1, 2, 4, 8, 16, 32, 64})"
proof -
  let ?r = "decimalToFraction val maxDenominator"
  have base: "gcd (numerator ?r) (denominator ?r) = 1
      \<and> (numerator ?r = 0 \<longrightarrow> denominator ?r = 1)
      \<and> (\<exists>j. denominator ?r = 2 ^ j \<and> denominator ?r \<le> maxDenominator)"
  proof (cases "val - of_int \<lfloor>val\<rfloor> < 0.0001")
    case True
    have "(1::int) \<le> 2 ^ k" by simp
    moreover have "\<exists>j::nat. (1::int) = 2 ^ j" by (rule exI [of _ 0]) simp
    ultimately show ?thesis
      using assms by (simp add: fast_path_result [OF True])
  next
    case False
    then have big: "0.0001 \<le> val - of_int \<lfloor>val\<rfloor>" by simp
    note p = search_result_props [OF big, of maxDenominator]
    from p(5) obtain j where j: "denominator ?r = 2 ^ j"
      and le: "denominator ?r = 1 \<or> denominator ?r \<le> maxDenominator" by blast
    have "(1::int) \<le> 2 ^ k" by simp
    then have "denominator ?r \<le> maxDenominator" using le assms by auto
    with j p(2) p(6) show ?thesis by (auto simp add: coprime_iff_gcd_eq_1)
  qed
  then obtain j where j: "denominator ?r = 2 ^ j" and le: "denominator ?r \<le> maxDenominator"
    by blast
  have "(2::int) ^ j \<le> 2 ^ k" using j le assms by simp
  then have jk: "j \<le> k" by (simp only: power_increasing_iff) 
  then have "(2::int) ^ j dvd 2 ^ k" by (rule le_imp_power_dvd)
  then have dv: "denominator ?r dvd maxDenominator"
    using j assms by simp
  have small: "denominator ?r \<in> {1, 2, 4, 8, 16, 32, 64}" if "maxDenominator \<le> 64"
  proof -
    have "(2::int) ^ j \<le> 2 ^ 6" using that j le by simp
    then have "j \<le> 6" by (simp only: power_increasing_iff)
    then have "j = 0 \<or> j = 1 \<or> j = 2 \<or> j = 3 \<or> j = 4 \<or> j = 5 \<or> j = 6" by arith
    then show ?thesis unfolding j by auto
  qed
  from base dv small show ?thesis by blast
qed

text \<open>At \<open>0.00015\<close> with maximal denominator \<open>16\<close>, where the search settles on \<open>0/2\<close> and
  the reduction gives \<open>0/1\<close>.\<close>

theorem reduced_form_witness:
  "(16::int) = 2 ^ 4 \<and> (16::int) \<le> 64
   \<and> numerator (decimalToFraction (3 / 20000) 16) = 0
   \<and> denominator (decimalToFraction (3 / 20000) 16) = 1
   \<and> gcd (numerator (decimalToFraction (3 / 20000) 16))
          (denominator (decimalToFraction (3 / 20000) 16)) = 1
   \<and> denominator (decimalToFraction (3 / 20000) 16) dvd 16
   \<and> denominator (decimalToFraction (3 / 20000) 16) \<in> {1, 2, 4, 8, 16, 32, 64}"
proof -
  have h: "(16::int) = 2 ^ 4" by simp
  have l: "(16::int) \<le> 64" by simp
  have n: "numerator (decimalToFraction (3 / 20000) 16) = 0"
    by (simp add: decimalToFraction_def seed_def search_loop.simps loop_body_def Math_round_def
        gcd_js.simps signed_modulo_int_def Let_def)
  note t = reduced_form [OF h, of "3 / 20000"]
  from t n have "denominator (decimalToFraction (3 / 20000) 16) = 1" by blast
  moreover from t l have "denominator (decimalToFraction (3 / 20000) 16) \<in> {1, 2, 4, 8, 16, 32, 64}"
    by blast
  ultimately show ?thesis using h l n t by blast
qed

end
